theory Spec2Isabelle
  imports Main "HOL-Library.Char_ord" "HOL-Library.List_Lexorder"
begin

section \<open>The scrape-events route: data model\<close>

text \<open>
  The development embeds \<^verbatim>\<open>src/app/api/scrape-events/route.ts\<close>. JavaScript strings are
  modelled as \<^typ>\<open>string\<close>, one \<^typ>\<open>char\<close> per code unit below 256 (Latin-1); the order
  on strings is the lexicographic order on code units, which is what JavaScript's
  \<^verbatim>\<open><\<close> on strings and the default \<^verbatim>\<open>Array.prototype.sort\<close> use.

  The interfaces of the route become records. Field names that two interfaces share
  (\<^verbatim>\<open>name\<close>, \<^verbatim>\<open>duration\<close>) carry a prefix: \<open>m_\<close> for \<^verbatim>\<open>ScrapingMethod\<close>,
  \<open>ev_\<close> for \<^verbatim>\<open>MonopolyEvent\<close>, \<open>raw_\<close> for the objects the page script pushes.
\<close>

record MonopolyEvent =
  ev_name :: string
  startTime :: string
  endTime :: string
  ev_duration :: string
  ev_type :: "string option"
  imageUrl :: "string option"

text \<open>
  An \<^verbatim>\<open>EventsByDate\<close> object is an association list in insertion order: that is the order
  in which \<^verbatim>\<open>Object.keys\<close> and \<^verbatim>\<open>JSON.stringify\<close> enumerate string keys that are not
  array indices.
\<close>

type_synonym EventsByDate = "(string \<times> MonopolyEvent list) list"

datatype status = Pending | Running | Success | Failed

text \<open>The \<^verbatim>\<open>result?: any\<close> field holds one of the five objects the route stores there.\<close>

datatype step_result =
    BrowserLaunched
  | PageLoaded
  | EventsFound nat
  | Totals nat nat
  | Formatted

record ScrapingMethod =
  m_name :: string
  m_status :: status
  m_result :: "step_result option"
  m_error :: "string option"
  m_duration :: "int option"

text \<open>The objects pushed by the script that runs in the page (lines 199-205).\<close>

record RawEvent =
  raw_date :: string
  raw_name :: string
  timeText :: string
  durationText :: string
  raw_imageUrl :: string

section \<open>Strings\<close>

definition startsWith :: "string \<Rightarrow> string \<Rightarrow> bool" where
  "startsWith s p = (take (length p) s = p)"

fun includes_str :: "string \<Rightarrow> string \<Rightarrow> bool" where
  "includes_str [] sub = (sub = [])"
| "includes_str (c # cs) sub = (startsWith (c # cs) sub \<or> includes_str cs sub)"

definition is_digit :: "char \<Rightarrow> bool" where
  "is_digit c = (48 \<le> (of_char c :: nat) \<and> (of_char c :: nat) \<le> 57)"

text \<open>White space (\<^verbatim>\<open>\s\<close>, \<^verbatim>\<open>trim\<close>) and line terminators among the code units below 256.\<close>

definition is_space :: "char \<Rightarrow> bool" where
  "is_space c = ((of_char c :: nat) \<in> {9, 10, 11, 12, 13, 32, 160})"

definition is_line_terminator :: "char \<Rightarrow> bool" where
  "is_line_terminator c = ((of_char c :: nat) \<in> {10, 13})"

definition trim :: "string \<Rightarrow> string" where
  "trim s = rev (dropWhile is_space (rev (dropWhile is_space s)))"

definition lower_char :: "char \<Rightarrow> char" where
  "lower_char c =
     (let n = (of_char c :: nat)
      in if (65 \<le> n \<and> n \<le> 90) \<or> (192 \<le> n \<and> n \<le> 214) \<or> (216 \<le> n \<and> n \<le> 222)
         then char_of (n + 32) else c)"

definition toLowerCase :: "string \<Rightarrow> string" where
  "toLowerCase s = map lower_char s"

text \<open>\<^verbatim>\<open>s.replace(/\//g, "-")\<close> and \<^verbatim>\<open>s.replace(" ", "T")\<close> (first occurrence only).\<close>

definition replace_all :: "char \<Rightarrow> char \<Rightarrow> string \<Rightarrow> string" where
  "replace_all a b s = map (\<lambda>c. if c = a then b else c) s"

fun replace_first :: "char \<Rightarrow> char \<Rightarrow> string \<Rightarrow> string" where
  "replace_first a b [] = []"
| "replace_first a b (c # cs) = (if c = a then b # cs else c # replace_first a b cs)"

text \<open>Zero-padded decimal numerals of the widths that \<^verbatim>\<open>toISOString\<close> prints (the last
  digits of the number, most significant first), and the value of a run of digits.\<close>

definition digit_char :: "nat \<Rightarrow> char" where
  "digit_char n = char_of (48 + n mod 10)"

definition pad2 :: "nat \<Rightarrow> string" where
  "pad2 n = [digit_char (n div 10), digit_char n]"

definition pad3 :: "nat \<Rightarrow> string" where
  "pad3 n = digit_char (n div 100) # pad2 n"

definition pad4 :: "nat \<Rightarrow> string" where
  "pad4 n = digit_char (n div 1000) # pad3 n"

definition pad6 :: "nat \<Rightarrow> string" where
  "pad6 n = digit_char (n div 100000) # digit_char (n div 10000) # pad4 n"

definition num_of :: "string \<Rightarrow> nat" where
  "num_of s = foldl (\<lambda>a c. 10 * a + ((of_char c :: nat) - 48)) 0 s"

section \<open>The two regular expressions\<close>

text \<open>
  Both patterns of the time range are sequences of \<^verbatim>\<open>\d\<close> and literal characters, so a
  pattern is a list of items and a match at the start of a string is a walk along both.
\<close>

datatype pat = D | L char

fun matches :: "pat list \<Rightarrow> string \<Rightarrow> bool" where
  "matches [] s = True"
| "matches (p # ps) [] = False"
| "matches (D # ps) (c # cs) = (is_digit c \<and> matches ps cs)"
| "matches (L x # ps) (c # cs) = (c = x \<and> matches ps cs)"

definition stamp_pat :: "pat list" where
  "stamp_pat = [D, D, D, D, L CHR ''/'', D, D, L CHR ''/'', D, D, L CHR '' '',
                D, D, L CHR '':'', D, D, L CHR '':'', D, D]"

definition time_pat :: "pat list" where
  "time_pat = stamp_pat @ [L CHR '' '', L CHR ''-'', L CHR '' ''] @ stamp_pat"

text \<open>
  \<^verbatim>\<open>timeText.match(/(stamp) - (stamp)/)\<close>: the leftmost position where the 41 characters
  match; the two groups are characters 0-18 and 22-40 of the match.
\<close>

fun time_match :: "string \<Rightarrow> (string \<times> string) option" where
  "time_match [] = None"
| "time_match (c # cs) =
     (if matches time_pat (c # cs) then Some (take 19 (c # cs), take 19 (drop 22 (c # cs)))
      else time_match cs)"

text \<open>\<^verbatim>\<open>timeMatch[i].replace(/\//g, "-").replace(" ", "T")\<close>\<close>

definition stamp_iso :: "string \<Rightarrow> string" where
  "stamp_iso t = replace_first CHR '' '' CHR ''T'' (replace_all CHR ''/'' CHR ''-'' t)"

text \<open>
  \<^verbatim>\<open>/Duration:\s*(.+)/\<close>. After the literal, \<^verbatim>\<open>\s*\<close> is greedy and gives characters back
  when \<^verbatim>\<open>(.+)\<close> would otherwise be empty; \<^verbatim>\<open>.\<close> takes every character but a line
  terminator, as many as there are.
\<close>

definition dot_plus :: "string \<Rightarrow> string option" where
  "dot_plus s = (let g = takeWhile (\<lambda>c. \<not> is_line_terminator c) s in if g = [] then None else Some g)"

fun spaces_then_group :: "string \<Rightarrow> string option" where
  "spaces_then_group [] = None"
| "spaces_then_group (c # cs) =
     (if is_space c
      then (case spaces_then_group cs of Some g \<Rightarrow> Some g | None \<Rightarrow> dot_plus (c # cs))
      else dot_plus (c # cs))"

fun duration_match :: "string \<Rightarrow> string option" where
  "duration_match [] = None"
| "duration_match (c # cs) =
     (if startsWith (c # cs) ''Duration:''
      then (case spaces_then_group (drop 9 (c # cs)) of
              Some g \<Rightarrow> Some g
            | None \<Rightarrow> duration_match cs)
      else duration_match cs)"

text \<open>Lines 249-250.\<close>

definition parse_duration :: "string \<Rightarrow> string" where
  "parse_duration s = (case duration_match s of Some g \<Rightarrow> trim g | None \<Rightarrow> ''Unknown'')"

section \<open>Dates of the host\<close>

text \<open>
  \<^verbatim>\<open>new Date(event.date).toISOString().split("T")[0]\<close> runs on the JavaScript engine of the
  host (Node.js). A time value is a number of milliseconds since the epoch, in UTC;
  \<open>None\<close> stands for \<^verbatim>\<open>NaN\<close>, the invalid date. The calendar functions are those of
  ECMAScript (proleptic Gregorian calendar).
\<close>

definition msPerDay :: int where
  "msPerDay = 86400000"

text \<open>\<^verbatim>\<open>MakeDay(year, month, date)\<close> for a \<open>month\<close> from 0 to 11: the day number of the
  first day of that month, plus \<open>date - 1\<close> (so a day past the end of the month runs into
  the next one).\<close>

definition MakeDay :: "int \<Rightarrow> int \<Rightarrow> int \<Rightarrow> int" where
  "MakeDay year month date =
     (let m = month + 1;
          y = (if m \<le> 2 then year - 1 else year);
          era = y div 400;
          yoe = y - era * 400;
          doy = (153 * (if 2 < m then m - 3 else m + 9) + 2) div 5;
          doe = yoe * 365 + yoe div 4 - yoe div 100 + doy
      in era * 146097 + doe - 719468 + (date - 1))"

text \<open>The year, month (from 1) and day of the month of a day number.\<close>

definition civil_of_day :: "int \<Rightarrow> int \<times> int \<times> int" where
  "civil_of_day day =
     (let z = day + 719468;
          era = z div 146097;
          doe = z - era * 146097;
          yoe = (doe - doe div 1460 + doe div 36524 - doe div 146096) div 365;
          doy = doe - (365 * yoe + yoe div 4 - yoe div 100);
          mp = (5 * doy + 2) div 153;
          d = doy - (153 * mp + 2) div 5 + 1;
          m = (if mp < 10 then mp + 3 else mp - 9)
      in (if m \<le> 2 then yoe + era * 400 + 1 else yoe + era * 400, m, d))"

definition TimeClip :: "int \<Rightarrow> int option" where
  "TimeClip tv = (if 8640000000000000 < \<bar>tv\<bar> then None else Some tv)"

text \<open>
  The host: its offset from UTC in minutes (positive east of Greenwich), and what its
  date parser makes of the strings that the model below does not read itself.
\<close>

record host =
  utc_offset :: int
  other_dates :: "string \<Rightarrow> int option"

definition date_pat :: "pat list" where
  "date_pat = [D, D, D, D, L CHR ''/'', D, D, L CHR ''/'', D, D]"

text \<open>
  \<^verbatim>\<open>new Date(s)\<close>. A string \<^verbatim>\<open>YYYY/MM/DD\<close> is not in the ISO format, so the engine's
  fallback parser reads it: year, month, day, at midnight \<^emph>\<open>local time\<close>. A month outside
  1-12 or a day outside 1-31 gives the invalid date. Years below 100 (which that parser
  reads in other ways) and every other string are left to \<^const>\<open>other_dates\<close>.
\<close>

definition new_Date :: "host \<Rightarrow> string \<Rightarrow> int option" where
  "new_Date h s =
     (if matches date_pat s \<and> length s = 10 \<and> 100 \<le> num_of (take 4 s)
      then (let y = int (num_of (take 4 s));
                m = int (num_of (take 2 (drop 5 s)));
                d = int (num_of (take 2 (drop 8 s)))
            in if 1 \<le> m \<and> m \<le> 12 \<and> 1 \<le> d \<and> d \<le> 31
               then TimeClip (MakeDay y (m - 1) d * msPerDay - utc_offset h * 60000)
               else None)
      else (case other_dates h s of None \<Rightarrow> None | Some tv \<Rightarrow> TimeClip tv))"

text \<open>\<^verbatim>\<open>toISOString\<close> of a valid time value: the UTC date and time.\<close>

definition iso_year :: "int \<Rightarrow> string" where
  "iso_year y =
     (if 0 \<le> y \<and> y \<le> 9999 then pad4 (nat y)
      else (if y < 0 then ''-'' else ''+'') @ pad6 (nat \<bar>y\<bar>))"

definition toISOString :: "int \<Rightarrow> string" where
  "toISOString tv =
     (let (y, m, d) = civil_of_day (tv div msPerDay);
          ms = tv mod msPerDay
      in iso_year y @ ''-'' @ pad2 (nat m) @ ''-'' @ pad2 (nat d) @ ''T''
         @ pad2 (nat (ms div 3600000)) @ '':'' @ pad2 (nat (ms div 60000 mod 60))
         @ '':'' @ pad2 (nat (ms div 1000 mod 60)) @ ''.'' @ pad3 (nat (ms mod 1000))
         @ ''Z'')"

text \<open>
  Lines 231-232. \<^verbatim>\<open>toISOString\<close> throws a \<^verbatim>\<open>RangeError\<close> on the invalid date: that is
  the \<open>None\<close> here, which the \<^verbatim>\<open>catch\<close> of line 275 receives.
\<close>

definition formattedDate :: "host \<Rightarrow> string \<Rightarrow> string option" where
  "formattedDate h s =
     (case new_Date h s of
        None \<Rightarrow> None
      | Some tv \<Rightarrow> Some (takeWhile (\<lambda>c. c \<noteq> CHR ''T'') (toISOString tv)))"

section \<open>Parse Event Details (lines 226-278)\<close>

text \<open>Lines 253-263: the first rule whose keyword occurs in the lower-cased name.\<close>

definition eventType :: "string \<Rightarrow> string" where
  "eventType nm =
     (let name = toLowerCase nm
      in if includes_str name ''milestone'' then ''Milestone''
         else if includes_str name ''partners'' \<or> includes_str name ''jedi'' then ''Partner Event''
         else if includes_str name ''bash'' \<or> includes_str name ''builders'' then ''Tournament''
         else if includes_str name ''roller'' \<or> includes_str name ''high'' then ''Quick Event''
         else if includes_str name ''heist'' \<or> includes_str name ''mega'' then ''Tournament''
         else if includes_str name ''chance'' \<or> includes_str name ''lucky'' then ''Quick Event''
         else if includes_str name ''season'' \<or> includes_str name ''league'' then ''Season''
         else if includes_str name ''blitz'' \<or> includes_str name ''golden'' then ''Special Event''
         else if includes_str name ''boom'' \<or> includes_str name ''sticker'' then ''Special Event''
         else ''Event'')"

text \<open>Lines 245-272: the event built from a fragment and the two groups of the time match.\<close>

definition monopolyEvent :: "RawEvent \<Rightarrow> string \<Rightarrow> string \<Rightarrow> MonopolyEvent" where
  "monopolyEvent event t1 t2 =
     \<lparr> ev_name = raw_name event,
       startTime = stamp_iso t1,
       endTime = stamp_iso t2,
       ev_duration = parse_duration (durationText event),
       ev_type = Some (eventType (raw_name event)),
       imageUrl = Some (if startsWith (raw_imageUrl event) ''http'' then raw_imageUrl event
                        else ''https://monopolygo.game'' @ raw_imageUrl event) \<rparr>"

definition has_key :: "EventsByDate \<Rightarrow> string \<Rightarrow> bool" where
  "has_key obj k = (map_of obj k \<noteq> None)"

text \<open>\<^verbatim>\<open>obj[k].push(e)\<close>\<close>

definition push :: "string \<Rightarrow> MonopolyEvent \<Rightarrow> EventsByDate \<Rightarrow> EventsByDate" where
  "push k e obj = map (\<lambda>(k', es). if k' = k then (k', es @ [e]) else (k', es)) obj"

text \<open>
  The body of the \<^verbatim>\<open>forEach\<close> callback, in the order of the source: the date key, the
  bucket, the time range, the event. An invalid date leaves through the \<^verbatim>\<open>catch\<close>,
  which only logs; a time text without a match leaves through the \<^verbatim>\<open>return\<close> of line
  243, after the bucket was made.
\<close>

definition parse_event :: "host \<Rightarrow> EventsByDate \<Rightarrow> RawEvent \<Rightarrow> EventsByDate" where
  "parse_event h eventsByDate event =
     (case formattedDate h (raw_date event) of
        None \<Rightarrow> eventsByDate
      | Some k \<Rightarrow>
          (let obj = (if has_key eventsByDate k then eventsByDate else eventsByDate @ [(k, [])])
           in case time_match (timeText event) of
                None \<Rightarrow> obj
              | Some (t1, t2) \<Rightarrow> push k (monopolyEvent event t1 t2) obj))"

definition parse_events :: "host \<Rightarrow> RawEvent list \<Rightarrow> EventsByDate" where
  "parse_events h events = foldl (parse_event h) [] events"

section \<open>Format JSON Output (lines 293-299)\<close>

definition get :: "EventsByDate \<Rightarrow> string \<Rightarrow> MonopolyEvent list" where
  "get obj k = (case map_of obj k of Some es \<Rightarrow> es | None \<Rightarrow> [])"

text \<open>
  The keys sorted by code units, each with its list sorted on \<^verbatim>\<open>startTime\<close>. The sort
  of the engine is stable, as insertion sort is. \<^verbatim>\<open>localeCompare\<close> is modelled by the
  code-unit order: the two agree on the start times, which all have the shape
  \<^verbatim>\<open>dddd-dd-ddTdd:dd:dd\<close> and so first differ at a digit.
\<close>

definition sortedEventsByDate :: "EventsByDate \<Rightarrow> EventsByDate" where
  "sortedEventsByDate eventsByDate =
     map (\<lambda>date. (date, sort_key startTime (get eventsByDate date))) (sort (map fst eventsByDate))"

section \<open>The stream and the pipeline (lines 24-376)\<close>

text \<open>
  What \<^verbatim>\<open>JSON.stringify\<close> writes to the stream: a progress record with the step list as it
  is at that moment, or the final record, whose last three fields are left out when
  \<^verbatim>\<open>undefined\<close>. \<^verbatim>\<open>sendFinal\<close> also closes the stream.
\<close>

datatype stream_record =
    Progress int "ScrapingMethod list"
  | Final bool "EventsByDate option" "string option" "string option"

datatype action = Enqueue stream_record | Close

text \<open>A thrown value is an \<^verbatim>\<open>Error\<close> with its message, or something else.\<close>

datatype thrown = Error string | NonError

text \<open>What the page script returns (lines 140-210).\<close>

datatype extraction = EventBoxNotFound | Extracted "RawEvent list"

text \<open>
  Everything outside the route is a parameter of the run. Each call into the renderer
  returns or throws (\<open>Some\<close> of what it throws):
  the dynamic import, \<^verbatim>\<open>launch\<close>, the page calls of step 2 taken together,
  \<^verbatim>\<open>page.evaluate\<close>, and the \<^verbatim>\<open>browser.close()\<close> of line 308. \<open>now i\<close> is the \<open>i\<close>-th
  reading of \<^verbatim>\<open>Date.now()\<close>. The \<^verbatim>\<open>browser.close()\<close> of the \<^verbatim>\<open>catch\<close> block writes
  nothing to the stream and its failure is only logged, so it has no counterpart here.
  The stream takes every record: the reader does not cancel it.
\<close>

record env =
  import_puppeteer :: bool
  launch :: "thrown option"
  load_page :: "thrown option"
  evaluate :: "thrown + extraction"
  close_browser :: "thrown option"
  now :: "nat \<Rightarrow> int"
  host_of :: host

record pstate =
  methods :: "ScrapingMethod list"
  out :: "action list"

definition pending_step :: "string \<Rightarrow> ScrapingMethod" where
  "pending_step n = \<lparr> m_name = n, m_status = Pending, m_result = None, m_error = None, m_duration = None \<rparr>"

definition init :: pstate where
  "init = \<lparr> methods = [pending_step ''Puppeteer Browser Automation'',
                         pending_step ''Wait for Dynamic Content'',
                         pending_step ''Extract Events from DOM'',
                         pending_step ''Parse Event Details'',
                         pending_step ''Format JSON Output''],
            out = [] \<rparr>"

definition sendProgress :: "int \<Rightarrow> pstate \<Rightarrow> pstate" where
  "sendProgress progress s = s\<lparr> out := out s @ [Enqueue (Progress progress (methods s))] \<rparr>"

definition sendFinal ::
  "bool \<Rightarrow> EventsByDate option \<Rightarrow> string option \<Rightarrow> string option \<Rightarrow> pstate \<Rightarrow> pstate" where
  "sendFinal ok events successfulMethod err s =
     s\<lparr> out := out s @ [Enqueue (Final ok events successfulMethod err), Close] \<rparr>"

text \<open>\<^verbatim>\<open>methods[i].status = "running"\<close>, and the three assignments that end a step.\<close>

definition set_running :: "nat \<Rightarrow> pstate \<Rightarrow> pstate" where
  "set_running i s = s\<lparr> methods := (methods s)[i := (methods s ! i)\<lparr> m_status := Running \<rparr>] \<rparr>"

definition set_success :: "nat \<Rightarrow> int \<Rightarrow> step_result \<Rightarrow> pstate \<Rightarrow> pstate" where
  "set_success i d r s =
     s\<lparr> methods := (methods s)[i := (methods s ! i)
           \<lparr> m_status := Success, m_result := Some r, m_duration := Some d \<rparr>] \<rparr>"

text \<open>Line 74: what the route throws when the dynamic import fails.\<close>

definition import_error :: thrown where
  "import_error =
     Error ''Puppeteer not available. Using fallback method with simulated browser behavior.''"

text \<open>
  The \<^verbatim>\<open>try\<close> block. It ends normally (\<open>None\<close>) or with what was thrown, and in both
  cases with the step list and the stream as they are then.
\<close>

definition try_block :: "env \<Rightarrow> pstate \<Rightarrow> thrown option \<times> pstate" where
  "try_block e s0 =
     (let s1 = sendProgress 10 (set_running 0 s0)
      in if \<not> import_puppeteer e
         then (Some import_error, s1)
         else case launch e of
           Some x \<Rightarrow> (Some x, s1)
         | None \<Rightarrow>
          (let s2 = sendProgress 25 (set_success 0 (now e 1 - now e 0) BrowserLaunched s1);
               s3 = set_running 1 s2
           in case load_page e of
             Some x \<Rightarrow> (Some x, s3)
           | None \<Rightarrow>
            (let s4 = sendProgress 50 (set_success 1 (now e 3 - now e 2) PageLoaded s3);
                 s5 = set_running 2 s4
             in case evaluate e of
               Inl x \<Rightarrow> (Some x, s5)
             | Inr EventBoxNotFound \<Rightarrow> (Some (Error ''Event box not found''), s5)
             | Inr (Extracted events) \<Rightarrow>
              (let s6 = sendProgress 75
                          (set_success 2 (now e 5 - now e 4) (EventsFound (length events)) s5);
                   s7 = set_running 3 s6;
                   eventsByDate = parse_events (host_of e) events;
                   s8 = sendProgress 90
                          (set_success 3 (now e 7 - now e 6)
                             (Totals (length (concat (map snd eventsByDate))) (length eventsByDate)) s7);
                   s9 = set_running 4 s8;
                   sorted = sortedEventsByDate eventsByDate;
                   s10 = sendProgress 100 (set_success 4 (now e 9 - now e 8) Formatted s9)
               in case close_browser e of
                 Some x \<Rightarrow> (Some x, s10)
               | None \<Rightarrow>
                  (None, sendFinal True (Some sorted) (Some ''Puppeteer Browser Automation'')
                           None s10)))))"

text \<open>Lines 322-326: the first step that is running is marked failed.\<close>

definition message :: "thrown \<Rightarrow> string \<Rightarrow> string" where
  "message x dflt = (case x of Error m \<Rightarrow> m | NonError \<Rightarrow> dflt)"

fun mark_failed :: "thrown \<Rightarrow> ScrapingMethod list \<Rightarrow> ScrapingMethod list" where
  "mark_failed x [] = []"
| "mark_failed x (m # ms) =
     (if m_status m = Running
      then m\<lparr> m_status := Failed, m_error := Some (message x ''Unknown error'') \<rparr> # ms
      else m # mark_failed x ms)"

definition ev ::
  "string \<Rightarrow> string \<Rightarrow> string \<Rightarrow> string \<Rightarrow> string \<Rightarrow> string \<Rightarrow> MonopolyEvent" where
  "ev n s e d t i =
     \<lparr> ev_name = n, startTime = s, endTime = e, ev_duration = d, ev_type = Some t,
       imageUrl = Some i \<rparr>"

definition sampleEvents :: EventsByDate where
  "sampleEvents =
     [(''2025-05-29'',
        [ev ''High Roller'' ''2025-05-29T01:00:00'' ''2025-05-29T06:59:00'' ''5 Minutes''
            ''Quick Event''
            ''https://api.monopolygo.game/storage/v1/object/public/event/icon/highroller.png'',
         ev ''Mega Heist'' ''2025-05-29T07:00:00'' ''2025-05-29T12:59:00'' ''45 Minutes''
            ''Tournament''
            ''https://api.monopolygo.game/storage/v1/object/public/event/icon/heist.png'']),
      (''2025-05-30'',
        [ev ''Golden Blitz'' ''2025-05-30T13:00:00'' ''2025-05-31T12:59:59'' ''Whole Time''
            ''Special Event''
            ''https://api.monopolygo.game/storage/v1/object/public/event/icon/goldsticker.png''])]"

definition fallback_error :: string where
  "fallback_error = ''Puppeteer not available in this environment. Sample data provided. To get real data, deploy this app to a server with Puppeteer support.''"

text \<open>Line 329: \<^verbatim>\<open>error instanceof Error && error.message.includes("Puppeteer not available")\<close>\<close>

definition not_available :: "thrown \<Rightarrow> bool" where
  "not_available x =
     (case x of Error m \<Rightarrow> includes_str m ''Puppeteer not available'' | NonError \<Rightarrow> False)"

definition catch_block :: "thrown \<Rightarrow> pstate \<Rightarrow> pstate" where
  "catch_block x s =
     (let s1 = s\<lparr> methods := mark_failed x (methods s) \<rparr>
      in if not_available x
         then sendFinal False (Some sampleEvents) None (Some fallback_error) (sendProgress 100 s1)
         else sendFinal False None None (Some (message x ''Unknown error occurred''))
                (sendProgress 100 s1))"

text \<open>The stream that one request produces.\<close>

definition GET :: "env \<Rightarrow> action list" where
  "GET e = (case try_block e init of
              (None, s) \<Rightarrow> out s
            | (Some x, s) \<Rightarrow> out (catch_block x s))"

text \<open>Readers of a stream: the records in order, the step lists broadcast, the last record.\<close>

fun records :: "action list \<Rightarrow> stream_record list" where
  "records [] = []"
| "records (Enqueue r # as) = r # records as"
| "records (Close # as) = records as"

fun broadcasts :: "stream_record list \<Rightarrow> ScrapingMethod list list" where
  "broadcasts [] = []"
| "broadcasts (Progress p ms # rs) = ms # broadcasts rs"
| "broadcasts (Final ok evs sm err # rs) = broadcasts rs"

fun is_final :: "stream_record \<Rightarrow> bool" where
  "is_final (Final ok evs sm err) = True"
| "is_final (Progress p ms) = False"

section \<open>Reading a run\<close>

text \<open>What the \<^verbatim>\<open>catch\<close> block sends last (lines 329-373).\<close>

definition failure_record :: "thrown \<Rightarrow> stream_record" where
  "failure_record x =
     (if not_available x then Final False (Some sampleEvents) None (Some fallback_error)
      else Final False None None (Some (message x ''Unknown error occurred'')))"

text \<open>
  The state after each broadcast of the \<^verbatim>\<open>try\<close> block, and the two states in which
  steps 2 and 3 run.
\<close>

definition state1 :: pstate where
  "state1 = sendProgress 10 (set_running 0 init)"

definition state2 :: "env \<Rightarrow> pstate" where
  "state2 e = sendProgress 25 (set_success 0 (now e 1 - now e 0) BrowserLaunched state1)"

definition running2 :: "env \<Rightarrow> pstate" where
  "running2 e = set_running 1 (state2 e)"

definition state3 :: "env \<Rightarrow> pstate" where
  "state3 e = sendProgress 50 (set_success 1 (now e 3 - now e 2) PageLoaded (running2 e))"

definition running3 :: "env \<Rightarrow> pstate" where
  "running3 e = set_running 2 (state3 e)"

definition state4 :: "env \<Rightarrow> RawEvent list \<Rightarrow> pstate" where
  "state4 e events =
     sendProgress 75 (set_success 2 (now e 5 - now e 4) (EventsFound (length events))
       (running3 e))"

definition state5 :: "env \<Rightarrow> RawEvent list \<Rightarrow> pstate" where
  "state5 e events =
     sendProgress 90
       (set_success 3 (now e 7 - now e 6)
          (Totals (length (concat (map snd (parse_events (host_of e) events))))
                  (length (parse_events (host_of e) events)))
          (set_running 3 (state4 e events)))"

definition state6 :: "env \<Rightarrow> RawEvent list \<Rightarrow> pstate" where
  "state6 e events =
     sendProgress 100
       (set_success 4 (now e 9 - now e 8) Formatted (set_running 4 (state5 e events)))"

text \<open>What the \<^verbatim>\<open>try\<close> block of a run throws, if anything.\<close>

definition raised :: "env \<Rightarrow> thrown option" where
  "raised e = fst (try_block e init)"

text \<open>The last record of a stream, and the step list of its last progress record.\<close>

definition terminal :: "action list \<Rightarrow> stream_record option" where
  "terminal as = (case rev (records as) of [] \<Rightarrow> None | r # rs \<Rightarrow> Some r)"

definition final_broadcast :: "action list \<Rightarrow> ScrapingMethod list" where
  "final_broadcast as = last (broadcasts (records as))"

definition running_count :: "ScrapingMethod list \<Rightarrow> nat" where
  "running_count ms = length (filter (\<lambda>m. m_status m = Running) ms)"

definition one_running :: "ScrapingMethod list \<Rightarrow> bool" where
  "one_running ms = (running_count ms = 1)"

definition none_running :: "ScrapingMethod list \<Rightarrow> bool" where
  "none_running ms = (running_count ms = 0)"

text \<open>The progress records of a stream: the percentage and the states of the five steps.\<close>

fun progress_view :: "stream_record list \<Rightarrow> (int \<times> status list) list" where
  "progress_view [] = []"
| "progress_view (Progress p ms # rs) = (p, map m_status ms) # progress_view rs"
| "progress_view (Final ok evs sm err # rs) = progress_view rs"

text \<open>
  The step in whose part of the \<^verbatim>\<open>try\<close> block something is thrown, with what is thrown,
  read off the environment: step 1 is lines 63-97 (import and launch), step 2 lines
  99-133 (the page calls), step 3 lines 135-220 (the page script, and the \<^verbatim>\<open>throw\<close> of
  line 213). Steps 4 and 5 call nothing that throws. The \<^verbatim>\<open>browser.close()\<close> of line 308
  comes after step 5 and belongs to no step.
\<close>

definition failing_step :: "env \<Rightarrow> (nat \<times> thrown) option" where
  "failing_step e =
     (if \<not> import_puppeteer e then Some (1, import_error)
      else case launch e of
        Some x \<Rightarrow> Some (1, x)
      | None \<Rightarrow>
         (case load_page e of
            Some x \<Rightarrow> Some (2, x)
          | None \<Rightarrow>
             (case evaluate e of
                Inl x \<Rightarrow> Some (3, x)
              | Inr EventBoxNotFound \<Rightarrow> Some (3, Error ''Event box not found'')
              | Inr (Extracted events) \<Rightarrow> None)))"

text \<open>The event that a fragment contributes to the bucket of key \<open>k\<close>, if any.\<close>

definition event_of :: "host \<Rightarrow> string \<Rightarrow> RawEvent \<Rightarrow> MonopolyEvent option" where
  "event_of h k g =
     (if formattedDate h (raw_date g) = Some k
      then (case time_match (timeText g) of
              Some (t1, t2) \<Rightarrow> Some (monopolyEvent g t1 t2)
            | None \<Rightarrow> None)
      else None)"

text \<open>A string that a pattern matches from its first to its last character.\<close>

definition exact :: "pat list \<Rightarrow> string \<Rightarrow> bool" where
  "exact p s = (matches p s \<and> length s = length p)"

definition ascending :: "MonopolyEvent list \<Rightarrow> bool" where
  "ascending es = sorted (map startTime es)"

definition ordered_times :: "MonopolyEvent \<Rightarrow> bool" where
  "ordered_times e = (startTime e \<le> endTime e)"

section \<open>Example runs\<close>

text \<open>A host on UTC and a host one hour east of it; neither reads other date formats.\<close>

definition host_utc :: host where
  "host_utc = \<lparr> utc_offset = 0, other_dates = (\<lambda>s. None) \<rparr>"

definition host_east :: host where
  "host_east = \<lparr> utc_offset = 60, other_dates = (\<lambda>s. None) \<rparr>"

definition fragment_A :: RawEvent where
  "fragment_A =
     \<lparr> raw_date = ''2025/05/29'', raw_name = ''High Roller'',
       timeText = ''2025/05/29 01:00:00 - 2025/05/29 06:59:00'',
       durationText = ''Duration: 5 Minutes'', raw_imageUrl = ''/i/highroller.png'' \<rparr>"

definition event_A :: MonopolyEvent where
  "event_A = ev ''High Roller'' ''2025-05-29T01:00:00'' ''2025-05-29T06:59:00'' ''5 Minutes''
               ''Quick Event'' ''https://monopolygo.game/i/highroller.png''"

text \<open>A run in which every call into the renderer returns.\<close>

definition env_ok :: "host \<Rightarrow> RawEvent list \<Rightarrow> env" where
  "env_ok h events =
     \<lparr> import_puppeteer = True, launch = None, load_page = None,
       evaluate = Inr (Extracted events), close_browser = None,
       now = (\<lambda>i. int i), host_of = h \<rparr>"

text \<open>
  Fragments that differ from the first in one field: the time range backwards, a month
  13, and no time text (what the page script leaves when no block of the event holds
  a time range).
\<close>

definition fragment_reversed :: RawEvent where
  "fragment_reversed = fragment_A\<lparr> timeText := ''2025/05/29 06:59:00 - 2025/05/29 01:00:00'' \<rparr>"

definition fragment_bad_date :: RawEvent where
  "fragment_bad_date = fragment_A\<lparr> raw_date := ''2025/13/01'' \<rparr>"

definition fragment_no_time :: RawEvent where
  "fragment_no_time = fragment_A\<lparr> timeText := [] \<rparr>"

text \<open>
  Two more fragments, one of the same date and one of the next, and the events that the
  fragments give.
\<close>

definition fragment_second :: RawEvent where
  "fragment_second =
     \<lparr> raw_date = ''2025/05/29'', raw_name = ''Mega Heist'',
       timeText = ''2025/05/29 07:00:00 - 2025/05/29 12:59:00'',
       durationText = ''Duration: 45 Minutes'', raw_imageUrl = ''/i/heist.png'' \<rparr>"

definition fragment_late :: RawEvent where
  "fragment_late =
     \<lparr> raw_date = ''2025/05/30'', raw_name = ''Golden Blitz'',
       timeText = ''2025/05/30 13:00:00 - 2025/05/31 12:59:59'',
       durationText = ''Duration: Whole Time'',
       raw_imageUrl = ''https://api.monopolygo.game/i/gold.png'' \<rparr>"

definition event_second :: MonopolyEvent where
  "event_second = ev ''Mega Heist'' ''2025-05-29T07:00:00'' ''2025-05-29T12:59:00'' ''45 Minutes''
                    ''Tournament'' ''https://monopolygo.game/i/heist.png''"

definition event_late :: MonopolyEvent where
  "event_late = ev ''Golden Blitz'' ''2025-05-30T13:00:00'' ''2025-05-31T12:59:59'' ''Whole Time''
                  ''Special Event'' ''https://api.monopolygo.game/i/gold.png''"

definition event_reversed :: MonopolyEvent where
  "event_reversed = ev ''High Roller'' ''2025-05-29T06:59:00'' ''2025-05-29T01:00:00''
          ''5 Minutes'' ''Quick Event'' ''https://monopolygo.game/i/highroller.png''"



definition env_timeout :: env where
  "env_timeout =
     (env_ok host_utc [])\<lparr> load_page := Some (Error ''Navigation timeout of 30000 ms exceeded'') \<rparr>"

text \<open>
  A key that holds a dash is not an array index, so \<^verbatim>\<open>JSON.stringify\<close> writes it in
  insertion order. The pattern of a converted time stamp.
\<close>

definition has_dash :: "string \<Rightarrow> bool" where
  "has_dash k = (CHR ''-'' \<in> set k)"

definition iso_pat :: "pat list" where
  "iso_pat = [D, D, D, D, L CHR ''-'', D, D, L CHR ''-'', D, D, L CHR ''T'',
              D, D, L CHR '':'', D, D, L CHR '':'', D, D]"

section \<open>The buckets of Parse Event Details\<close>

lemma map_fst_push: "map fst (push k e obj) = map fst obj"
  by (induction obj) (auto simp: push_def)

lemma has_key_iff: "has_key obj k \<longleftrightarrow> k \<in> set (map fst obj)"
  by (simp add: has_key_def map_of_eq_None_iff)

lemma map_of_push:
  "map_of (push k e obj) k' = map_option (\<lambda>es. if k' = k then es @ [e] else es) (map_of obj k')"
  by (induction obj) (auto simp: push_def)

lemma get_push:
  "has_key obj k \<Longrightarrow> get (push k e obj) k' = (if k' = k then get obj k @ [e] else get obj k')"
  by (cases "map_of obj k'") (auto simp: get_def map_of_push has_key_def)

lemma get_append_new: "get (obj @ [(k, [])]) k' = get obj k'"
  by (simp add: get_def map_add_def split: option.splits)

lemma has_key_append_new: "has_key (obj @ [(k, [])]) k"
  by (simp add: has_key_iff)

lemma get_Nil: "get [] k = []"
  by (simp add: get_def)

lemma parse_event_keys:
  "map fst (parse_event h obj g) =
     (case formattedDate h (raw_date g) of
        None \<Rightarrow> map fst obj
      | Some k \<Rightarrow> if k \<in> set (map fst obj) then map fst obj else map fst obj @ [k])"
  by (simp add: parse_event_def has_key_iff map_fst_push split: option.splits)

lemma parse_event_distinct:
  "distinct (map fst obj) \<Longrightarrow> distinct (map fst (parse_event h obj g))"
  by (simp add: parse_event_keys split: option.splits)

lemma parse_event_get:
  "get (parse_event h obj g) k = get obj k @ (case event_of h k g of None \<Rightarrow> [] | Some e \<Rightarrow> [e])"
proof (cases "formattedDate h (raw_date g)")
  case None
  then show ?thesis by (simp add: parse_event_def event_of_def)
next
  case (Some d)
  define obj' where "obj' = (if has_key obj d then obj else obj @ [(d, [])])"
  have hk: "has_key obj' d" by (simp add: obj'_def has_key_append_new)
  have g': "get obj' k = get obj k" by (simp add: obj'_def get_append_new)
  show ?thesis
  proof (cases "time_match (timeText g)")
    case None
    then show ?thesis using Some g' by (simp add: parse_event_def event_of_def obj'_def)
  next
    case (Some tt)
    obtain t1 t2 where tt: "tt = (t1, t2)" by (cases tt)
    have "parse_event h obj g = push d (monopolyEvent g t1 t2) obj'"
      using Some tt \<open>formattedDate h (raw_date g) = Some d\<close>
      by (simp add: parse_event_def obj'_def)
    then show ?thesis
      using Some tt \<open>formattedDate h (raw_date g) = Some d\<close> g' get_push [OF hk]
      by (auto simp: event_of_def)
  qed
qed

lemma foldl_parse_event_distinct:
  "distinct (map fst obj) \<Longrightarrow> distinct (map fst (foldl (parse_event h) obj gs))"
  by (induction gs arbitrary: obj) (simp_all add: parse_event_distinct)

lemma foldl_parse_event_keys:
  "set (map fst (foldl (parse_event h) obj gs)) =
     set (map fst obj) \<union> {k. \<exists>g \<in> set gs. formattedDate h (raw_date g) = Some k}"
proof (induction gs arbitrary: obj)
  case Nil
  then show ?case by simp
next
  case (Cons g gs)
  have "set (map fst (parse_event h obj g)) =
          set (map fst obj) \<union> {k. formattedDate h (raw_date g) = Some k}"
    by (auto simp: parse_event_keys split: option.splits)
  then show ?case using Cons.IH [of "parse_event h obj g"] by auto
qed

lemma foldl_parse_event_get:
  "get (foldl (parse_event h) obj gs) k = get obj k @ List.map_filter (event_of h k) gs"
proof (induction gs arbitrary: obj)
  case Nil
  then show ?case by (simp add: List.map_filter_simps)
next
  case (Cons g gs)
  show ?case
    by (cases "event_of h k g") (simp_all add: Cons.IH parse_event_get List.map_filter_simps)
qed

lemma parse_events_distinct: "distinct (map fst (parse_events h gs))"
  by (simp add: parse_events_def foldl_parse_event_distinct)

lemma parse_events_keys:
  "set (map fst (parse_events h gs)) = {k. \<exists>g \<in> set gs. formattedDate h (raw_date g) = Some k}"
  using foldl_parse_event_keys [of h "[]" gs] by (simp add: parse_events_def)

lemma parse_events_get: "get (parse_events h gs) k = List.map_filter (event_of h k) gs"
  using foldl_parse_event_get [of h "[]" gs k] by (simp add: parse_events_def get_Nil)

lemma parse_event_unparseable:
  "formattedDate h (raw_date f) = None \<Longrightarrow> parse_event h obj f = obj"
  by (simp add: parse_event_def)

lemma parse_events_drop:
  "formattedDate h (raw_date f) = None \<Longrightarrow> parse_events h (xs @ f # ys) = parse_events h (xs @ ys)"
  by (simp add: parse_events_def parse_event_unparseable)

lemma formattedDate_None: "formattedDate h s = None \<longleftrightarrow> new_Date h s = None"
  by (simp add: formattedDate_def split: option.splits)

section \<open>The sorted output\<close>

lemma map_fst_sorted: "map fst (sortedEventsByDate obj) = sort (map fst obj)"
  by (simp add: sortedEventsByDate_def comp_def)

lemma sorted_buckets: "list_all ascending (map snd (sortedEventsByDate obj))"
  by (simp add: sortedEventsByDate_def ascending_def list_all_iff)

lemma in_sorted:
  "(k, es) \<in> set (sortedEventsByDate obj) \<longleftrightarrow>
     k \<in> set (map fst obj) \<and> es = sort_key startTime (get obj k)"
  by (auto simp: sortedEventsByDate_def)

lemma in_output:
  assumes "e \<in> set (concat (map snd (sortedEventsByDate (parse_events h gs))))"
  shows "\<exists>g k. g \<in> set gs \<and> event_of h k g = Some e"
proof -
  obtain k es where "(k, es) \<in> set (sortedEventsByDate (parse_events h gs))" "e \<in> set es"
    using assms by auto
  then have "e \<in> set (List.map_filter (event_of h k) gs)"
    by (simp add: in_sorted parse_events_get)
  then obtain g where "g \<in> set gs" "event_of h k g = Some e"
    by (auto simp: List.map_filter_def)
  then show ?thesis by blast
qed

lemma sample_sorted:
  "sorted (map fst sampleEvents) \<and> distinct (map fst sampleEvents) \<and>
   list_all ascending (map snd sampleEvents)"
  by (simp add: sampleEvents_def ev_def ascending_def)


section \<open>Date keys\<close>

lemma digit_char_not_T: "digit_char n \<noteq> CHR ''T''"
proof
  assume "digit_char n = CHR ''T''"
  then have "(of_char (digit_char n) :: nat) = of_char CHR ''T''" by simp
  then show False by (simp add: digit_char_def)
qed

lemma iso_year_no_T: "CHR ''T'' \<notin> set (iso_year y)"
  using digit_char_not_T [symmetric]
  by (simp add: iso_year_def pad4_def pad6_def pad3_def pad2_def)

lemma dash_before_T:
  "CHR ''T'' \<notin> set a \<Longrightarrow> CHR ''-'' \<in> set (takeWhile (\<lambda>c. c \<noteq> CHR ''T'') (a @ CHR ''-'' # r))"
  by (induction a) auto

lemma date_key_has_dash:
  assumes "formattedDate h s = Some k"
  shows "has_dash k"
proof -
  obtain tv where k: "k = takeWhile (\<lambda>c. c \<noteq> CHR ''T'') (toISOString tv)"
    using assms by (auto simp: formattedDate_def split: option.splits)
  obtain y m d where c: "civil_of_day (tv div msPerDay) = (y, m, d)"
    by (cases "civil_of_day (tv div msPerDay)")
  show ?thesis
    unfolding has_dash_def k toISOString_def Let_def c prod.case append.simps
    by (rule dash_before_T [OF iso_year_no_T])
qed

lemma keys_have_dash: "list_all has_dash (map fst (sortedEventsByDate (parse_events h gs)))"
proof -
  have "has_dash k" if "k \<in> set (map fst (parse_events h gs))" for k
    using that parse_events_keys [of h gs] date_key_has_dash by auto
  then show ?thesis
    by (simp add: map_fst_sorted list_all_iff)
qed

lemma sample_keys_have_dash: "list_all has_dash (map fst sampleEvents)"
  by (simp add: sampleEvents_def has_dash_def)

section \<open>Time stamps\<close>

lemma matches_D: "matches (D # ps) s \<longleftrightarrow> (\<exists>c cs. s = c # cs \<and> is_digit c \<and> matches ps cs)"
  by (cases s) auto

lemma matches_L: "matches (L x # ps) s \<longleftrightarrow> (\<exists>cs. s = x # cs \<and> matches ps cs)"
  by (cases s) auto

lemma matches_append:
  "matches (p @ q) s \<Longrightarrow> exact p (take (length p) s) \<and> matches q (drop (length p) s)"
proof (induction p s rule: matches.induct)
  case (1 s)
  then show ?case by (simp add: exact_def)
next
  case (2 p ps)
  then show ?case by simp
next
  case (3 ps c cs)
  then show ?case by (simp add: exact_def)
next
  case (4 x ps c cs)
  then show ?case by (simp add: exact_def)
qed

lemma matches_take: "matches p s \<Longrightarrow> exact p (take (length p) s)"
  using matches_append [of p "[]" s] by simp

lemma time_match_exact:
  "time_match s = Some (t1, t2) \<Longrightarrow> exact stamp_pat t1 \<and> exact stamp_pat t2"
proof (induction s)
  case Nil
  then show ?case by simp
next
  case (Cons c cs)
  show ?case
  proof (cases "matches time_pat (c # cs)")
    case False
    then show ?thesis using Cons by simp
  next
    case True
    have t: "t1 = take 19 (c # cs)" "t2 = take 19 (drop 22 (c # cs))"
      using Cons.prems True by simp_all
    have l: "length stamp_pat = 19" by (simp add: stamp_pat_def)
    have a: "exact stamp_pat (take 19 (c # cs))"
      and b: "matches ([L CHR '' '', L CHR ''-'', L CHR '' ''] @ stamp_pat) (drop 19 (c # cs))"
      using matches_append [of stamp_pat _ "c # cs"] True l by (simp_all add: time_pat_def)
    have "matches stamp_pat (drop 3 (drop 19 (c # cs)))"
      using matches_append [OF b] by simp
    then have "exact stamp_pat (take 19 (drop 22 (c # cs)))"
      using matches_take [of stamp_pat "drop 3 (drop 19 (c # cs))"] l by simp
    then show ?thesis using a t by simp
  qed
qed

lemma digit_not_sep: "is_digit c \<Longrightarrow> c \<noteq> CHR ''/'' \<and> c \<noteq> CHR '' ''"
  by (auto simp: is_digit_def)

lemma stamp_iso_exact:
  assumes "exact stamp_pat t"
  obtains a b c d e f g h i j k l m n where
    "t = [a, b, c, d, CHR ''/'', e, f, CHR ''/'', g, h, CHR '' '', i, j, CHR '':'', k, l, CHR '':'', m, n]"
    "stamp_iso t = [a, b, c, d, CHR ''-'', e, f, CHR ''-'', g, h, CHR ''T'', i, j, CHR '':'', k, l, CHR '':'', m, n]"
proof -
  from assms obtain a b c d e f g h i j k l m n where
    t: "t = [a, b, c, d, CHR ''/'', e, f, CHR ''/'', g, h, CHR '' '', i, j, CHR '':'', k, l, CHR '':'', m, n]"
    and dg: "is_digit a" "is_digit b" "is_digit c" "is_digit d" "is_digit e" "is_digit f"
       "is_digit g" "is_digit h" "is_digit i" "is_digit j" "is_digit k" "is_digit l"
       "is_digit m" "is_digit n"
    by (auto simp: exact_def stamp_pat_def matches_D matches_L)
  have "stamp_iso t = [a, b, c, d, CHR ''-'', e, f, CHR ''-'', g, h, CHR ''T'', i, j, CHR '':'', k, l, CHR '':'', m, n]"
    using dg [THEN digit_not_sep] by (simp add: t stamp_iso_def replace_all_def)
  then show ?thesis using t that by blast
qed

lemma stamp_iso_le:
  assumes "exact stamp_pat t1" "exact stamp_pat t2"
  shows "(stamp_iso t1 \<le> stamp_iso t2) = (t1 \<le> t2)"
proof -
  obtain a b c d e f g h i j k l m n where
    t1: "t1 = [a, b, c, d, CHR ''/'', e, f, CHR ''/'', g, h, CHR '' '', i, j, CHR '':'', k, l, CHR '':'', m, n]"
    "stamp_iso t1 = [a, b, c, d, CHR ''-'', e, f, CHR ''-'', g, h, CHR ''T'', i, j, CHR '':'', k, l, CHR '':'', m, n]"
    using assms(1) by (rule stamp_iso_exact)
  obtain a' b' c' d' e' f' g' h' i' j' k' l' m' n' where
    t2: "t2 = [a', b', c', d', CHR ''/'', e', f', CHR ''/'', g', h', CHR '' '', i', j', CHR '':'', k', l', CHR '':'', m', n']"
    "stamp_iso t2 = [a', b', c', d', CHR ''-'', e', f', CHR ''-'', g', h', CHR ''T'', i', j', CHR '':'', k', l', CHR '':'', m', n']"
    using assms(2) by (rule stamp_iso_exact)
  show ?thesis
    by (subst t1(2), subst t2(2), subst t1(1), subst t2(1)) simp
qed

lemma stamp_iso_shape: "exact stamp_pat t \<Longrightarrow> exact iso_pat (stamp_iso t)"
proof -
  assume "exact stamp_pat t"
  then obtain a b c d e f g h i j k l m n where
    t: "t = [a, b, c, d, CHR ''/'', e, f, CHR ''/'', g, h, CHR '' '', i, j, CHR '':'', k, l, CHR '':'', m, n]"
    and dg: "is_digit a" "is_digit b" "is_digit c" "is_digit d" "is_digit e" "is_digit f"
       "is_digit g" "is_digit h" "is_digit i" "is_digit j" "is_digit k" "is_digit l"
       "is_digit m" "is_digit n"
    by (auto simp: exact_def stamp_pat_def matches_D matches_L)
  have "stamp_iso t = [a, b, c, d, CHR ''-'', e, f, CHR ''-'', g, h, CHR ''T'', i, j, CHR '':'', k, l, CHR '':'', m, n]"
    using dg [THEN digit_not_sep] by (simp add: t stamp_iso_def replace_all_def)
  then show ?thesis using dg by (simp add: exact_def iso_pat_def)
qed

lemma startTime_shape:
  assumes "e \<in> set (concat (map snd (sortedEventsByDate (parse_events h gs))))"
  shows "exact iso_pat (startTime e)"
proof -
  obtain g k where g: "g \<in> set gs" "event_of h k g = Some e"
    using in_output [OF assms] by blast
  then obtain t1 t2 where t: "time_match (timeText g) = Some (t1, t2)" "e = monopolyEvent g t1 t2"
    by (auto simp: event_of_def split: if_splits option.splits)
  show ?thesis
    using time_match_exact [OF t(1)] stamp_iso_shape [of t1] by (simp add: t(2) monopolyEvent_def)
qed

section \<open>The paths of a run\<close>

lemmas st_defs = sendProgress_def sendFinal_def set_running_def set_success_def init_def pending_step_def
lemmas state_defs = state1_def state2_def running2_def state3_def running3_def state4_def state5_def state6_def

lemma list_update_Cons_num: "(x # xs)[numeral n := y] = x # xs[pred_numeral n := y]"
  by (simp add: numeral_eq_Suc)

lemma try_block_paths:
  "try_block e init =
    (if \<not> import_puppeteer e then (Some import_error, state1)
     else case launch e of Some x \<Rightarrow> (Some x, state1) | None \<Rightarrow>
      (case load_page e of Some x \<Rightarrow> (Some x, running2 e) | None \<Rightarrow>
       (case evaluate e of Inl x \<Rightarrow> (Some x, running3 e)
        | Inr EventBoxNotFound \<Rightarrow> (Some (Error ''Event box not found''), running3 e)
        | Inr (Extracted events) \<Rightarrow>
           (case close_browser e of Some x \<Rightarrow> (Some x, state6 e events)
            | None \<Rightarrow> (None, sendFinal True (Some (sortedEventsByDate (parse_events (host_of e) events)))
                   (Some ''Puppeteer Browser Automation'') None (state6 e events))))))"
  unfolding try_block_def Let_def state_defs
  by (simp split: option.splits sum.splits extraction.splits)

lemma out_catch_block:
  "out (catch_block x s) =
     out s @ [Enqueue (Progress 100 (mark_failed x (methods s))), Enqueue (failure_record x), Close]"
  by (simp add: catch_block_def Let_def failure_record_def sendProgress_def sendFinal_def)

lemma out_sendFinal:
  "out (sendFinal ok evs sm err s) = out s @ [Enqueue (Final ok evs sm err), Close]"
  by (simp add: sendFinal_def)

lemma out_set_running [simp]: "out (set_running i s) = out s"
  by (simp add: set_running_def)

lemma out_state1: "out state1 = [Enqueue (Progress 10 (methods state1))]"
  by (simp add: state1_def sendProgress_def init_def set_running_def)

lemma out_state2: "out (state2 e) = out state1 @ [Enqueue (Progress 25 (methods (state2 e)))]"
  by (simp add: state2_def sendProgress_def set_success_def)

lemma out_state3: "out (state3 e) = out (state2 e) @ [Enqueue (Progress 50 (methods (state3 e)))]"
  by (simp add: state3_def running2_def sendProgress_def set_success_def set_running_def)

lemma out_running [simp]: "out (running2 e) = out (state2 e)" "out (running3 e) = out (state3 e)"
  by (simp_all add: running2_def running3_def)

lemma out_state4: "out (state4 e evs) = out (state3 e) @ [Enqueue (Progress 75 (methods (state4 e evs)))]"
  by (simp add: state4_def running3_def sendProgress_def set_success_def set_running_def)

lemma out_state5: "out (state5 e evs) = out (state4 e evs) @ [Enqueue (Progress 90 (methods (state5 e evs)))]"
  by (simp add: state5_def sendProgress_def set_success_def set_running_def)

lemma out_state6: "out (state6 e evs) = out (state5 e evs) @ [Enqueue (Progress 100 (methods (state6 e evs)))]"
  by (simp add: state6_def sendProgress_def set_success_def set_running_def)

lemmas out_states = out_state1 out_state2 out_state3 out_state4 out_state5 out_state6

lemma status_state1: "map m_status (methods state1) = [Running, Pending, Pending, Pending, Pending]"
  by (simp add: state_defs st_defs)

lemma status_state2: "map m_status (methods (state2 e)) = [Success, Pending, Pending, Pending, Pending]"
  by (simp add: state_defs st_defs)

lemma status_state3: "map m_status (methods (state3 e)) = [Success, Success, Pending, Pending, Pending]"
  by (simp add: state_defs st_defs list_update_Cons_num)

lemma status_state4: "map m_status (methods (state4 e evs)) = [Success, Success, Success, Pending, Pending]"
  by (simp add: state_defs st_defs list_update_Cons_num)

lemma status_state5: "map m_status (methods (state5 e evs)) = [Success, Success, Success, Success, Pending]"
  by (simp add: state_defs st_defs list_update_Cons_num)

lemma status_state6: "map m_status (methods (state6 e evs)) = [Success, Success, Success, Success, Success]"
  by (simp add: state_defs st_defs list_update_Cons_num)

lemmas status_states = status_state1 status_state2 status_state3 status_state4 status_state5 status_state6

lemma failed_state1:
  "map m_status (mark_failed x (methods state1)) = [Failed, Pending, Pending, Pending, Pending]"
  "m_error (mark_failed x (methods state1) ! 0) = Some (message x ''Unknown error'')"
  by (simp_all add: state_defs st_defs)

lemma failed_state2:
  "map m_status (mark_failed x (methods (running2 e))) = [Success, Failed, Pending, Pending, Pending]"
  "m_error (mark_failed x (methods (running2 e)) ! Suc 0) = Some (message x ''Unknown error'')"
  by (simp_all add: state_defs st_defs list_update_Cons_num)

lemma failed_state3:
  "map m_status (mark_failed x (methods (running3 e))) = [Success, Success, Failed, Pending, Pending]"
  "m_error (mark_failed x (methods (running3 e)) ! Suc (Suc 0)) = Some (message x ''Unknown error'')"
  by (simp_all add: state_defs st_defs list_update_Cons_num)

lemma failed_state6:
  "mark_failed x (methods (state6 e evs)) = methods (state6 e evs)"
  by (simp add: state_defs st_defs list_update_Cons_num)

lemma GET_cases [case_names step1 step2 step3 close ok]:
  obtains
    (step1) x where "failing_step e = Some (1, x)" "raised e = Some x"
      "GET e = out (catch_block x state1)"
  | (step2) x where "failing_step e = Some (2, x)" "raised e = Some x"
      "GET e = out (catch_block x (running2 e))"
  | (step3) x where "failing_step e = Some (3, x)" "raised e = Some x"
      "GET e = out (catch_block x (running3 e))"
  | (close) x evs where "failing_step e = None" "raised e = Some x"
      "GET e = out (catch_block x (state6 e evs))"
  | (ok) evs where "failing_step e = None" "raised e = None"
      "import_puppeteer e" "launch e = None" "load_page e = None"
      "evaluate e = Inr (Extracted evs)" "close_browser e = None"
      "GET e = out (sendFinal True (Some (sortedEventsByDate (parse_events (host_of e) evs)))
                 (Some ''Puppeteer Browser Automation'') None (state6 e evs))"
proof (cases "import_puppeteer e")
  case False
  then show ?thesis
    using step1 [of import_error]
    by (simp add: failing_step_def raised_def GET_def try_block_paths)
next
  case imp: True
  show ?thesis
  proof (cases "launch e")
    case (Some x)
    then show ?thesis using imp step1 [of x]
      by (simp add: failing_step_def raised_def GET_def try_block_paths)
  next
    case l: None
    show ?thesis
    proof (cases "load_page e")
      case (Some x)
      then show ?thesis using imp l step2 [of x]
        by (simp add: failing_step_def raised_def GET_def try_block_paths)
    next
      case p: None
      show ?thesis
      proof (cases "evaluate e")
        case (Inl x)
        then show ?thesis using imp l p step3 [of x]
          by (simp add: failing_step_def raised_def GET_def try_block_paths)
      next
        case (Inr r)
        show ?thesis
        proof (cases r)
          case EventBoxNotFound
          then show ?thesis using imp l p Inr step3 [of "Error ''Event box not found''"]
            by (simp add: failing_step_def raised_def GET_def try_block_paths)
        next
          case (Extracted evs)
          show ?thesis
          proof (cases "close_browser e")
            case None
            then show ?thesis using imp l p Inr Extracted ok [of evs]
              by (simp add: failing_step_def raised_def GET_def try_block_paths)
          next
            case (Some x)
            then show ?thesis using imp l p Inr Extracted close [of x evs]
              by (simp add: failing_step_def raised_def GET_def try_block_paths)
          qed
        qed
      qed
    qed
  qed
qed

lemma GET_ok:
  "import_puppeteer e \<Longrightarrow> launch e = None \<Longrightarrow> load_page e = None \<Longrightarrow>
   evaluate e = Inr (Extracted evs) \<Longrightarrow> close_browser e = None \<Longrightarrow>
   GET e = out (sendFinal True (Some (sortedEventsByDate (parse_events (host_of e) evs)))
                  (Some ''Puppeteer Browser Automation'') None (state6 e evs))"
  by (simp add: GET_def try_block_paths)

lemma records_append [simp]: "records (as @ bs) = records as @ records bs"
  by (induction as rule: records.induct) simp_all

lemma broadcasts_append [simp]: "broadcasts (rs @ ss) = broadcasts rs @ broadcasts ss"
  by (induction rs rule: broadcasts.induct) simp_all

lemma is_final_failure_record [simp]: "is_final (failure_record x)"
  by (simp add: failure_record_def)

lemma broadcasts_failure_record [simp]: "broadcasts [failure_record x] = []"
  by (simp add: failure_record_def)

lemma terminal_catch: "terminal (out (catch_block x s)) = Some (failure_record x)"
  by (simp add: terminal_def out_catch_block)

lemma terminal_sendFinal: "terminal (out (sendFinal ok evs sm err s)) = Some (Final ok evs sm err)"
  by (simp add: terminal_def out_sendFinal)

lemma terminal_GET:
  "terminal (GET e) =
     (case raised e of
        Some x \<Rightarrow> Some (failure_record x)
      | None \<Rightarrow> (case evaluate e of
           Inr (Extracted evs) \<Rightarrow>
             Some (Final True (Some (sortedEventsByDate (parse_events (host_of e) evs)))
                    (Some ''Puppeteer Browser Automation'') None)
         | _ \<Rightarrow> None))"
  by (cases e rule: GET_cases) (simp_all add: terminal_catch terminal_sendFinal)

lemma terminal_ok:
  "import_puppeteer e \<Longrightarrow> launch e = None \<Longrightarrow> load_page e = None \<Longrightarrow>
   evaluate e = Inr (Extracted evs) \<Longrightarrow> close_browser e = None \<Longrightarrow>
   terminal (GET e) = Some (Final True (Some (sortedEventsByDate (parse_events (host_of e) evs)))
                  (Some ''Puppeteer Browser Automation'') None)"
  by (simp add: GET_ok terminal_sendFinal)

lemma final_broadcast_catch:
  "final_broadcast (out (catch_block x s)) = mark_failed x (methods s)"
  by (simp add: final_broadcast_def out_catch_block)

lemma broadcasts_catch: "broadcasts (records (out (catch_block x s))) \<noteq> []"
  by (simp add: out_catch_block)

lemma final_broadcast_ok:
  "import_puppeteer e \<Longrightarrow> launch e = None \<Longrightarrow> load_page e = None \<Longrightarrow>
   evaluate e = Inr (Extracted evs) \<Longrightarrow> close_browser e = None \<Longrightarrow>
   map m_status (final_broadcast (GET e)) = [Success, Success, Success, Success, Success]"
  by (simp add: GET_ok final_broadcast_def out_sendFinal out_states status_state6)

lemma steps_4_5_never_fail:
  assumes "failing_step e = None"
  shows "map m_status (final_broadcast (GET e)) = [Success, Success, Success, Success, Success]"
proof (cases e rule: GET_cases)
  case (close x evs)
  show ?thesis unfolding close(3) final_broadcast_catch by (simp add: failed_state6 status_state6)
next
  case (ok evs)
  show ?thesis unfolding ok(8) by (simp add: final_broadcast_def out_sendFinal out_states status_state6)
qed (use assms in simp_all)

lemma running_count_status:
  "map m_status ms = sts \<Longrightarrow> running_count ms = length (filter (\<lambda>s. s = Running) sts)"
  by (auto simp: running_count_def filter_map comp_def)

lemma running_states:
  "running_count (methods state1) = 1"
  "running_count (methods (state2 e)) = 0"
  "running_count (methods (state3 e)) = 0"
  "running_count (methods (state4 e evs)) = 0"
  "running_count (methods (state5 e evs)) = 0"
  "running_count (methods (state6 e evs)) = 0"
  "running_count (mark_failed x (methods state1)) = 0"
  "running_count (mark_failed x (methods (running2 e))) = 0"
  "running_count (mark_failed x (methods (running3 e))) = 0"
  "running_count (mark_failed x (methods (state6 e evs))) = 0"
  by (simp_all add: running_count_status [OF status_state1] running_count_status [OF status_state2]
        running_count_status [OF status_state3] running_count_status [OF status_state4]
        running_count_status [OF status_state5] running_count_status [OF status_state6]
        running_count_status [OF failed_state1(1)] running_count_status [OF failed_state2(1)]
        running_count_status [OF failed_state3(1)] failed_state6)




section \<open>The example runs, evaluated\<close>

lemma env_ok_sel [simp]:
  "import_puppeteer (env_ok h evs)" "launch (env_ok h evs) = None" "load_page (env_ok h evs) = None"
  "evaluate (env_ok h evs) = Inr (Extracted evs)" "close_browser (env_ok h evs) = None"
  "host_of (env_ok h evs) = h"
  by (simp_all add: env_ok_def)

lemma terminal_env_ok:
  "terminal (GET (env_ok h evs)) = Some (Final True (Some (sortedEventsByDate (parse_events h evs)))
                  (Some ''Puppeteer Browser Automation'') None)"
  using terminal_ok [of "env_ok h evs" evs] by simp

lemma events_A_utc: "sortedEventsByDate (parse_events host_utc [fragment_A]) = [(''2025-05-29'', [event_A])]"
  by code_simp

lemma events_A_east: "sortedEventsByDate (parse_events host_east [fragment_A]) = [(''2025-05-28'', [event_A])]"
  by code_simp

lemma key_A_east: "formattedDate host_east ''2025/05/29'' = Some ''2025-05-28''"
  by code_simp

lemma parse_A_east: "parse_events host_east [fragment_A] = [(''2025-05-28'', [event_A])]"
  by code_simp

lemma scenario_A_at_utc:
  "terminal (GET (env_ok host_utc [fragment_A])) =
     Some (Final True (Some [(''2025-05-29'', [event_A])]) (Some ''Puppeteer Browser Automation'') None)"
  by (simp add: terminal_env_ok events_A_utc)

lemma events_reversed:
  "sortedEventsByDate (parse_events host_utc [fragment_reversed]) =
     [(''2025-05-29'', [ev ''High Roller'' ''2025-05-29T06:59:00'' ''2025-05-29T01:00:00''
          ''5 Minutes'' ''Quick Event'' ''https://monopolygo.game/i/highroller.png''])]"
  by code_simp

lemma bad_date: "new_Date host_utc (raw_date fragment_bad_date) = None"
  by code_simp

lemma no_time: "time_match (timeText fragment_no_time) = None"
  by code_simp

lemma key_no_time: "formattedDate host_utc (raw_date fragment_no_time) = Some ''2025-05-29''"
  by code_simp

lemma events_no_time: "sortedEventsByDate (parse_events host_utc [fragment_no_time]) = [(''2025-05-29'', [])]"
  by code_simp



lemma parsed_three:
  "parse_events host_utc [fragment_late, fragment_second, fragment_A] =
     [(''2025-05-30'', [event_late]), (''2025-05-29'', [event_second, event_A])]"
  by code_simp

lemma events_three:
  "sortedEventsByDate (parse_events host_utc [fragment_late, fragment_second, fragment_A]) =
     [(''2025-05-29'', [event_A, event_second]), (''2025-05-30'', [event_late])]"
  by code_simp

lemma events_two:
  "sortedEventsByDate (parse_events host_utc [fragment_reversed, fragment_second]) =
     [(''2025-05-29'', [event_reversed, event_second])]"
  by code_simp

lemma match_reversed:
  "time_match (timeText fragment_reversed) = Some (''2025/05/29 06:59:00'', ''2025/05/29 01:00:00'')"
  "time_match (timeText fragment_second) = Some (''2025/05/29 07:00:00'', ''2025/05/29 12:59:00'')"
  "formattedDate host_utc (raw_date fragment_second) = Some ''2025-05-29''"
  "monopolyEvent fragment_second ''2025/05/29 07:00:00'' ''2025/05/29 12:59:00'' = event_second"
  by code_simp+

lemma terminal_three:
  "terminal (GET (env_ok host_utc [fragment_late, fragment_second, fragment_A])) =
     Some (Final True (Some [(''2025-05-29'', [event_A, event_second]), (''2025-05-30'', [event_late])])
             (Some ''Puppeteer Browser Automation'') None)"
  by (simp add: terminal_env_ok events_three)



text \<open>
  The first fragment on any host: its date key is the date of the header on a host at or
  west of UTC, and the day before on a host east of UTC.
\<close>

lemma new_Date_A: "new_Date h ''2025/05/29'' = TimeClip (20237 * msPerDay - utc_offset h * 60000)"
proof -
  have a: "matches date_pat ''2025/05/29''" "num_of (take 4 ''2025/05/29'') = 2025"
    "num_of (take 2 (drop 5 ''2025/05/29'')) = 5" "num_of (take 2 (drop 8 ''2025/05/29'')) = 29"
    by code_simp+
  have b: "MakeDay 2025 4 29 = 20237" by code_simp
  show ?thesis using a b by (simp add: new_Date_def Let_def)
qed

lemma civil_A: "civil_of_day 20237 = (2025, 5, 29)" "civil_of_day 20236 = (2025, 5, 28)"
  by code_simp+

lemma year_A: "iso_year 2025 = ''2025''" "pad2 5 = ''05''" "pad2 29 = ''29''" "pad2 28 = ''28''"
  by code_simp+

lemma key_A_west:
  assumes "- 1440 < utc_offset h" "utc_offset h \<le> 0"
  shows "formattedDate h ''2025/05/29'' = Some ''2025-05-29''"
proof -
  define tv where "tv = 20237 * msPerDay - utc_offset h * 60000"
  have d: "tv div msPerDay = 20237"
    using assms by (simp add: tv_def msPerDay_def) 
  have c: "TimeClip tv = Some tv"
    using assms by (simp add: TimeClip_def tv_def msPerDay_def)
  show ?thesis
    by (simp add: formattedDate_def new_Date_A c [unfolded tv_def] toISOString_def d [unfolded tv_def] civil_A year_A Let_def)
qed

lemma key_A_east_any:
  assumes "0 < utc_offset h" "utc_offset h \<le> 1440"
  shows "formattedDate h ''2025/05/29'' = Some ''2025-05-28''"
proof -
  define tv where "tv = 20237 * msPerDay - utc_offset h * 60000"
  have d: "tv div msPerDay = 20236"
    using assms by (simp add: tv_def msPerDay_def) 
  have c: "TimeClip tv = Some tv"
    using assms by (simp add: TimeClip_def tv_def msPerDay_def)
  show ?thesis
    by (simp add: formattedDate_def new_Date_A c [unfolded tv_def] toISOString_def d [unfolded tv_def] civil_A year_A Let_def)
qed

lemma parse_A:
  assumes "formattedDate h ''2025/05/29'' = Some k"
  shows "sortedEventsByDate (parse_events h [fragment_A]) = [(k, [event_A])]"
proof -
  have t: "time_match (timeText fragment_A) =
             Some (''2025/05/29 01:00:00'', ''2025/05/29 06:59:00'')"
    by code_simp
  have m: "monopolyEvent fragment_A ''2025/05/29 01:00:00'' ''2025/05/29 06:59:00'' = event_A"
    by code_simp
  have d: "raw_date fragment_A = ''2025/05/29''" by (simp add: fragment_A_def)
  have "parse_events h [fragment_A] = [(k, [event_A])]"
    using assms by (simp add: parse_events_def parse_event_def d t m has_key_def push_def)
  then show ?thesis by (simp add: sortedEventsByDate_def get_def)
qed

lemma scenario_A_utc_or_west:
  assumes "import_puppeteer e" "launch e = None" "load_page e = None" "close_browser e = None"
    and "evaluate e = Inr (Extracted [fragment_A])"
    and "- 1440 < utc_offset (host_of e)" "utc_offset (host_of e) \<le> 0"
  shows "terminal (GET e) =
     Some (Final True (Some [(''2025-05-29'', [event_A])]) (Some ''Puppeteer Browser Automation'') None)"
  using terminal_ok [OF assms(1,2,3,5,4)] parse_A [OF key_A_west [OF assms(6,7)]] by simp

lemma scenario_A_any_east:
  assumes "import_puppeteer e" "launch e = None" "load_page e = None" "close_browser e = None"
    and "evaluate e = Inr (Extracted [fragment_A])"
    and "0 < utc_offset (host_of e)" "utc_offset (host_of e) \<le> 1440"
  shows "terminal (GET e) =
     Some (Final True (Some [(''2025-05-28'', [event_A])]) (Some ''Puppeteer Browser Automation'') None)"
  using terminal_ok [OF assms(1,2,3,5,4)] parse_A [OF key_A_east_any [OF assms(6,7)]] by simp

section \<open>The claims\<close>

text \<open>
  Claim C1 (end-to-end scenario A). With the container present and the one fragment
  \<^const>\<open>fragment_A\<close>, the terminal record should have success true and the events
  \<open>2025-05-29 \<mapsto> [event_A]\<close>. The time stamps, the duration, the type and the image
  URL are as stated on every host, but the date key goes through local midnight and
  back to UTC: on a host one hour east of UTC the run ends with success true and the
  event stored under \<open>2025-05-28\<close>.
\<close>

theorem scenario_A_east_of_utc:
  "terminal (GET (env_ok host_east [fragment_A])) =
     Some (Final True (Some [(''2025-05-28'', [event_A])]) (Some ''Puppeteer Browser Automation'') None)"
  by (simp add: terminal_env_ok events_A_east)

text \<open>
  Claim C2, as amended. Every event of the output is the event of one of the fragments,
  stored under the date key of that fragment, and its \<open>startTime\<close> and \<open>endTime\<close> are
  the first and the second time stamp of that fragment's time text, each converted to
  the ISO-like form; nothing compares them. So \<open>startTime \<le> endTime\<close> holds for an event
  exactly when the first stamp of its fragment's time text is not after the second.
  Conversely, every fragment whose date parses and whose time text has a time range has
  its event in the output, under its date key.
\<close>

theorem times_as_written:
  "(\<forall>k es e. (k, es) \<in> set (sortedEventsByDate (parse_events h gs)) \<longrightarrow> e \<in> set es \<longrightarrow>
      (\<exists>g t1 t2. g \<in> set gs \<and> formattedDate h (raw_date g) = Some k \<and>
         time_match (timeText g) = Some (t1, t2) \<and> e = monopolyEvent g t1 t2 \<and>
         startTime e = stamp_iso t1 \<and> endTime e = stamp_iso t2 \<and>
         ordered_times e = (t1 \<le> t2))) \<and>
   (\<forall>g k t1 t2. g \<in> set gs \<longrightarrow> formattedDate h (raw_date g) = Some k \<longrightarrow>
      time_match (timeText g) = Some (t1, t2) \<longrightarrow>
      (\<exists>es. (k, es) \<in> set (sortedEventsByDate (parse_events h gs)) \<and>
            monopolyEvent g t1 t2 \<in> set es))"
proof (intro conjI allI impI)
  fix k es e
  assume a: "(k, es) \<in> set (sortedEventsByDate (parse_events h gs))" and b: "e \<in> set es"
  from a b have "e \<in> set (List.map_filter (event_of h k) gs)"
    by (simp add: in_sorted parse_events_get)
  then obtain g where g: "g \<in> set gs" "event_of h k g = Some e"
    by (auto simp: List.map_filter_def)
  then obtain t1 t2 where t: "formattedDate h (raw_date g) = Some k"
      "time_match (timeText g) = Some (t1, t2)" "e = monopolyEvent g t1 t2"
    by (auto simp: event_of_def split: if_splits option.splits)
  have "exact stamp_pat t1" "exact stamp_pat t2"
    using time_match_exact [OF t(2)] by simp_all
  then have "(stamp_iso t1 \<le> stamp_iso t2) = (t1 \<le> t2)"
    by (rule stamp_iso_le)
  then have "startTime e = stamp_iso t1 \<and> endTime e = stamp_iso t2 \<and> ordered_times e = (t1 \<le> t2)"
    using t(3) by (simp add: monopolyEvent_def ordered_times_def)
  then show "\<exists>g t1 t2. g \<in> set gs \<and> formattedDate h (raw_date g) = Some k \<and>
         time_match (timeText g) = Some (t1, t2) \<and> e = monopolyEvent g t1 t2 \<and>
         startTime e = stamp_iso t1 \<and> endTime e = stamp_iso t2 \<and>
         ordered_times e = (t1 \<le> t2)"
    using g(1) t by blast
next
  fix g k t1 t2
  assume g: "g \<in> set gs" and d: "formattedDate h (raw_date g) = Some k"
    and t: "time_match (timeText g) = Some (t1, t2)"
  have "event_of h k g = Some (monopolyEvent g t1 t2)"
    using d t by (simp add: event_of_def)
  then have m: "monopolyEvent g t1 t2 \<in> set (get (parse_events h gs) k)"
    using g by (force simp: parse_events_get List.map_filter_def)
  have k: "k \<in> set (map fst (parse_events h gs))"
    using g d parse_events_keys [of h gs] by auto
  have "(k, sort_key startTime (get (parse_events h gs) k))
          \<in> set (sortedEventsByDate (parse_events h gs))"
    using k by (simp add: in_sorted)
  moreover have "monopolyEvent g t1 t2 \<in> set (sort_key startTime (get (parse_events h gs) k))"
    using m by simp
  ultimately show "\<exists>es. (k, es) \<in> set (sortedEventsByDate (parse_events h gs)) \<and>
            monopolyEvent g t1 t2 \<in> set es"
    by blast
qed

theorem times_as_written_witness:
  "(\<exists>g t1 t2. g \<in> set [fragment_reversed, fragment_second] \<and>
       formattedDate host_utc (raw_date g) = Some ''2025-05-29'' \<and>
       time_match (timeText g) = Some (t1, t2) \<and> event_reversed = monopolyEvent g t1 t2 \<and>
       startTime event_reversed = stamp_iso t1 \<and> endTime event_reversed = stamp_iso t2 \<and>
       ordered_times event_reversed = (t1 \<le> t2)) \<and>
   (\<exists>es. (''2025-05-29'', es) \<in>
            set (sortedEventsByDate (parse_events host_utc [fragment_reversed, fragment_second])) \<and>
         event_second \<in> set es)"
proof -
  have a: "(''2025-05-29'', [event_reversed, event_second]) \<in>
             set (sortedEventsByDate (parse_events host_utc [fragment_reversed, fragment_second]))"
    "event_reversed \<in> set [event_reversed, event_second]"
    by (simp_all add: events_two)
  have b: "fragment_second \<in> set [fragment_reversed, fragment_second]" by simp
  show ?thesis
    using times_as_written [of host_utc "[fragment_reversed, fragment_second]",
            THEN conjunct1, rule_format, OF a]
      times_as_written [of host_utc "[fragment_reversed, fragment_second]",
            THEN conjunct2, rule_format, OF b match_reversed(3) match_reversed(2)]
    by (simp only: match_reversed(4))
qed

text \<open>
  The claim as stated fails: a fragment whose time text runs backwards is accepted, and its
  event starts after it ends.
\<close>

theorem end_before_start_accepted:
  "\<not> list_all ordered_times
       (concat (map snd (sortedEventsByDate (parse_events host_utc [fragment_reversed]))))"
  unfolding events_reversed by (simp add: ordered_times_def ev_def)

text \<open>
  Claim C3. The bucket key of a fragment with the header date \<^verbatim>\<open>YYYY/MM/DD\<close> should be
  \<^verbatim>\<open>YYYY-MM-DD\<close> whatever the time zone. The route converts the header with
  \<^verbatim>\<open>new Date(...).toISOString()\<close>, local midnight read back in UTC: on a host one hour
  east of UTC the header \<^verbatim>\<open>2025/05/29\<close> gives the key \<open>2025-05-28\<close>, and the event of
  the fragment is stored under it.
\<close>

theorem date_key_east_of_utc:
  "formattedDate host_east (raw_date fragment_A) = Some ''2025-05-28'' \<and>
   parse_events host_east [fragment_A] = [(''2025-05-28'', [event_A])]"
  using key_A_east parse_A_east by (simp add: fragment_A_def)

text \<open>
  Claim C4. In the events of a terminal record, whether they come from the page or are
  the sample, the date keys are strictly ascending in the order in which they are
  written (none is an array index, which would be written first), and every list is
  ascending in \<open>startTime\<close>, both in the code-unit order of strings.
\<close>

theorem output_sorted:
  assumes "terminal (GET e) = Some (Final ok (Some evs) sm err)"
  shows "sorted (map fst evs) \<and> distinct (map fst evs) \<and> list_all has_dash (map fst evs) \<and>
         list_all ascending (map snd evs)"
proof (cases "raised e")
  case (Some x)
  then have "evs = sampleEvents"
    using assms by (simp add: terminal_GET failure_record_def split: if_splits)
  then show ?thesis using sample_sorted sample_keys_have_dash by simp
next
  case None
  then obtain gs where "evs = sortedEventsByDate (parse_events (host_of e) gs)"
    using assms by (auto simp: terminal_GET split: sum.splits extraction.splits)
  then show ?thesis
    using sorted_buckets [of "parse_events (host_of e) gs"] parse_events_distinct [of "host_of e" gs]
      keys_have_dash [of "host_of e" gs]
    by (simp add: map_fst_sorted)
qed

theorem output_sorted_witness:
  "parse_events host_utc [fragment_late, fragment_second, fragment_A] =
     [(''2025-05-30'', [event_late]), (''2025-05-29'', [event_second, event_A])] \<and>
   terminal (GET (env_ok host_utc [fragment_late, fragment_second, fragment_A])) =
     Some (Final True (Some [(''2025-05-29'', [event_A, event_second]), (''2025-05-30'', [event_late])])
             (Some ''Puppeteer Browser Automation'') None) \<and>
   sorted (map fst [(''2025-05-29'', [event_A, event_second]), (''2025-05-30'', [event_late])]) \<and>
   distinct (map fst [(''2025-05-29'', [event_A, event_second]), (''2025-05-30'', [event_late])]) \<and>
   list_all has_dash (map fst [(''2025-05-29'', [event_A, event_second]), (''2025-05-30'', [event_late])]) \<and>
   list_all ascending (map snd [(''2025-05-29'', [event_A, event_second]), (''2025-05-30'', [event_late])])"
  using output_sorted [OF terminal_three] parsed_three terminal_three by blast

text \<open>
  Claim C5. When step \<open>n\<close> fails, the step list of the last progress record has the
  steps before \<open>n\<close> as \<open>Success\<close>, step \<open>n\<close> as \<open>Failed\<close> with the message of what was
  thrown as its error, and the steps after \<open>n\<close> as \<open>Pending\<close>. (Only steps 1 to 3 can
  fail; a run in which none of them does ends with all five steps \<open>Success\<close>.)
\<close>

theorem failed_step_list:
  assumes "failing_step e = Some (n, x)"
  shows "1 \<le> n \<and> n \<le> 5 \<and> broadcasts (records (GET e)) \<noteq> [] \<and>
         map m_status (final_broadcast (GET e)) =
           replicate (n - 1) Success @ [Failed] @ replicate (5 - n) Pending \<and>
         m_error (final_broadcast (GET e) ! (n - 1)) = Some (message x ''Unknown error'')"
proof (cases e rule: GET_cases)
  case (step1 y)
  have "n = 1" "y = x" using assms step1(1) by simp_all
  then show ?thesis
    unfolding step1(3) final_broadcast_catch
    by (simp add: failed_state1 broadcasts_catch numeral_eq_Suc)
next
  case (step2 y)
  have "n = 2" "y = x" using assms step2(1) by simp_all
  then show ?thesis
    unfolding step2(3) final_broadcast_catch
    by (simp add: failed_state2 broadcasts_catch numeral_eq_Suc)
next
  case (step3 y)
  have "n = 3" "y = x" using assms step3(1) by simp_all
  then show ?thesis
    unfolding step3(3) final_broadcast_catch
    by (simp add: failed_state3 broadcasts_catch numeral_eq_Suc)
next
  case (close y evs)
  then show ?thesis using assms by simp
next
  case (ok evs)
  then show ?thesis using assms by simp
qed

theorem failed_step_list_witness:
  "failing_step env_timeout = Some (2, Error ''Navigation timeout of 30000 ms exceeded'') \<and>
   map m_status (final_broadcast (GET env_timeout)) = [Success, Failed, Pending, Pending, Pending] \<and>
   m_error (final_broadcast (GET env_timeout) ! 1) = Some ''Navigation timeout of 30000 ms exceeded''"
proof -
  have f: "failing_step env_timeout = Some (2, Error ''Navigation timeout of 30000 ms exceeded'')"
    by (simp add: failing_step_def env_timeout_def env_ok_def)
  show ?thesis using f failed_step_list [OF f] by (simp add: message_def numeral_eq_Suc)
qed




text \<open>
  Claim C7. Every run writes some progress records, then one final record, then closes
  the stream; no other record of the stream is final.
\<close>

theorem one_final_record_ends_stream:
  "\<exists>ps f. GET e = map Enqueue ps @ [Enqueue f, Close] \<and> is_final f \<and> \<not> list_ex is_final ps"
proof (cases e rule: GET_cases)
  case (step1 x)
  have "GET e = map Enqueue [Progress 10 (methods state1), Progress 100 (mark_failed x (methods state1))]
          @ [Enqueue (failure_record x), Close]"
    by (simp add: step1(3) out_catch_block out_states)
  then show ?thesis by (intro exI conjI) (assumption, simp_all)
next
  case (step2 x)
  have "GET e = map Enqueue [Progress 10 (methods state1), Progress 25 (methods (state2 e)),
            Progress 100 (mark_failed x (methods (running2 e)))]
          @ [Enqueue (failure_record x), Close]"
    by (simp add: step2(3) out_catch_block out_states)
  then show ?thesis by (intro exI conjI) (assumption, simp_all)
next
  case (step3 x)
  have "GET e = map Enqueue [Progress 10 (methods state1), Progress 25 (methods (state2 e)),
            Progress 50 (methods (state3 e)),
            Progress 100 (mark_failed x (methods (running3 e)))]
          @ [Enqueue (failure_record x), Close]"
    by (simp add: step3(3) out_catch_block out_states)
  then show ?thesis by (intro exI conjI) (assumption, simp_all)
next
  case (close x evs)
  have "GET e = map Enqueue [Progress 10 (methods state1), Progress 25 (methods (state2 e)),
            Progress 50 (methods (state3 e)), Progress 75 (methods (state4 e evs)),
            Progress 90 (methods (state5 e evs)), Progress 100 (methods (state6 e evs)),
            Progress 100 (mark_failed x (methods (state6 e evs)))]
          @ [Enqueue (failure_record x), Close]"
    by (simp add: close(3) out_catch_block out_states)
  then show ?thesis by (intro exI conjI) (assumption, simp_all)
next
  case (ok evs)
  have "GET e = map Enqueue [Progress 10 (methods state1), Progress 25 (methods (state2 e)),
            Progress 50 (methods (state3 e)), Progress 75 (methods (state4 e evs)),
            Progress 90 (methods (state5 e evs)), Progress 100 (methods (state6 e evs))]
          @ [Enqueue (Final True (Some (sortedEventsByDate (parse_events (host_of e) evs)))
                 (Some ''Puppeteer Browser Automation'') None), Close]"
    by (simp add: ok(8) out_sendFinal out_states)
  then show ?thesis by (intro exI conjI) (assumption, simp_all)
qed

text \<open>
  Claim C8. Every progress record of a normally progressing run should show exactly one
  running step. Step 1 is set to running before its record is sent (lines 64-65). Steps
  2 to 5 are set to running only after the record that ends the step before them
  (lines 97-100, 133-136, 220-223, 287-290), so their running state is never sent: in
  the run in which every call returns, the records of progress 25, 50, 75 and 90 show
  the finished steps and no running one.
\<close>

theorem progress_records_of_full_run:
  "progress_view (records (GET (env_ok host_utc [fragment_A]))) =
     [(10, [Running, Pending, Pending, Pending, Pending]),
      (25, [Success, Pending, Pending, Pending, Pending]),
      (50, [Success, Success, Pending, Pending, Pending]),
      (75, [Success, Success, Success, Pending, Pending]),
      (90, [Success, Success, Success, Success, Pending]),
      (100, [Success, Success, Success, Success, Success])]"
proof -
  have "GET (env_ok host_utc [fragment_A]) =
          out (sendFinal True (Some (sortedEventsByDate (parse_events host_utc [fragment_A])))
                 (Some ''Puppeteer Browser Automation'') None
                 (state6 (env_ok host_utc [fragment_A]) [fragment_A]))"
    using GET_ok [of "env_ok host_utc [fragment_A]" "[fragment_A]"] by simp
  then show ?thesis
    by (simp add: out_sendFinal out_states status_states)
qed

text \<open>
  In every run the first progress record shows one running step, and no later one shows
  any.
\<close>

lemma running_in_every_run:
  "\<exists>b bs. broadcasts (records (GET e)) = b # bs \<and> bs \<noteq> [] \<and> one_running b \<and> list_all none_running bs"
proof (cases e rule: GET_cases)
  case (step1 x)
  then show ?thesis
    by (simp add: out_catch_block out_states one_running_def none_running_def running_states)
next
  case (step2 x)
  then show ?thesis
    by (simp add: out_catch_block out_states one_running_def none_running_def running_states)
next
  case (step3 x)
  then show ?thesis
    by (simp add: out_catch_block out_states one_running_def none_running_def running_states)
next
  case (close x evs)
  then show ?thesis
    by (simp add: out_catch_block out_states one_running_def none_running_def running_states)
next
  case (ok evs)
  then show ?thesis
    by (simp add: out_sendFinal out_states one_running_def none_running_def running_states)
qed

text \<open>
  Claim C9. A fragment whose date text does not parse leaves no trace: when every call
  into the renderer returns, the run ends with success true and no error, all five
  steps \<open>Success\<close>, and the events are those of the other fragments, as if the
  fragment had not been there.
\<close>

theorem unparseable_date_dropped:
  assumes "import_puppeteer e" "launch e = None" "load_page e = None" "close_browser e = None"
    and "evaluate e = Inr (Extracted (xs @ f # ys))"
    and "new_Date (host_of e) (raw_date f) = None"
  shows "terminal (GET e) =
           Some (Final True (Some (sortedEventsByDate (parse_events (host_of e) (xs @ ys))))
                   (Some ''Puppeteer Browser Automation'') None) \<and>
         map m_status (final_broadcast (GET e)) = [Success, Success, Success, Success, Success]"
  using assms
  by (simp add: terminal_ok final_broadcast_ok parse_events_drop formattedDate_None)

theorem unparseable_date_dropped_witness:
  "terminal (GET (env_ok host_utc ([fragment_A] @ fragment_bad_date # []))) =
           Some (Final True (Some [(''2025-05-29'', [event_A])])
                   (Some ''Puppeteer Browser Automation'') None) \<and>
         map m_status (final_broadcast (GET (env_ok host_utc ([fragment_A] @ fragment_bad_date # [])))) =
           [Success, Success, Success, Success, Success]"
  using unparseable_date_dropped [of "env_ok host_utc ([fragment_A] @ fragment_bad_date # [])"
          "[fragment_A]" fragment_bad_date "[]"] bad_date
  by (simp add: events_A_utc)

text \<open>
  Claim C10. A fragment whose date text parses and whose time text has no time range
  still puts its date key into the events of the terminal record; the key holds the
  empty list when no fragment of that date has a time range.
\<close>

theorem date_key_without_time_range:
  assumes "import_puppeteer e" "launch e = None" "load_page e = None" "close_browser e = None"
    and "evaluate e = Inr (Extracted gs)"
    and "f \<in> set gs"
    and "formattedDate (host_of e) (raw_date f) = Some k"
    and "time_match (timeText f) = None"
  shows "\<exists>evs. terminal (GET e) = Some (Final True (Some evs) (Some ''Puppeteer Browser Automation'') None)
           \<and> k \<in> set (map fst evs)
           \<and> ((\<forall>g \<in> set gs. formattedDate (host_of e) (raw_date g) = Some k \<longrightarrow> time_match (timeText g) = None)
                \<longrightarrow> (k, []) \<in> set evs)"
proof -
  let ?obj = "parse_events (host_of e) gs"
  have k: "k \<in> set (map fst ?obj)"
    using assms(6,7) parse_events_keys [of "host_of e" gs] by auto
  have "get ?obj k = []"
    if "\<forall>g \<in> set gs. formattedDate (host_of e) (raw_date g) = Some k \<longrightarrow> time_match (timeText g) = None"
  proof -
    have "event_of (host_of e) k g = None" if "g \<in> set gs" for g
      using that \<open>\<forall>g \<in> set gs. _\<close> by (auto simp: event_of_def)
    then show ?thesis
      by (simp add: parse_events_get List.map_filter_def filter_empty_conv)
  qed
  then have "(\<forall>g \<in> set gs. formattedDate (host_of e) (raw_date g) = Some k \<longrightarrow> time_match (timeText g) = None)
                \<longrightarrow> (k, []) \<in> set (sortedEventsByDate ?obj)"
    using k by (simp add: in_sorted)
  moreover have "k \<in> set (map fst (sortedEventsByDate ?obj))"
    using k by (simp add: map_fst_sorted)
  ultimately show ?thesis
    using terminal_ok [OF assms(1,2,3,5,4)] by blast
qed

theorem date_key_without_time_range_witness:
  "terminal (GET (env_ok host_utc [fragment_no_time])) =
     Some (Final True (Some [(''2025-05-29'', [])]) (Some ''Puppeteer Browser Automation'') None)
   \<and> (\<exists>evs. terminal (GET (env_ok host_utc [fragment_no_time])) =
          Some (Final True (Some evs) (Some ''Puppeteer Browser Automation'') None)
        \<and> ''2025-05-29'' \<in> set (map fst evs) \<and> (''2025-05-29'', []) \<in> set evs)"
  using date_key_without_time_range [of "env_ok host_utc [fragment_no_time]" "[fragment_no_time]"
          fragment_no_time "''2025-05-29''"] no_time key_no_time
  by (simp add: terminal_env_ok events_no_time)

end
